theory Spec2Isabelle
  imports Complex_Main
begin

section \<open>The chunk utility of arcgis-rest-js\<close>

text \<open>
  The function under verification:
  \<^verbatim>\<open>
  export function chunk<T>(array: T[], size: number) {
    if (array.length === 0) {
      return [];
    }
    const chunks = [];
    for (let i = 0; i < array.length; i += size) {
      chunks.push(array.slice(i, i + size));
    }
    return chunks;
  }
  \<close>
  The array is a list. The parameter \<open>size\<close> and the loop variable \<open>i\<close> are
  JavaScript numbers, the operations on them are \<open>+\<close>, \<open><\<close> and the conversion to an
  integer inside \<open>Array.prototype.slice\<close>. The body has no \<open>throw\<close> and none of these
  operations throws on an array and numbers, so the only way not to return a list of
  chunks is not to return at all: the result is an \<open>option\<close>, \<open>None\<close> standing for a
  loop that never ends.
\<close>

subsection \<open>JavaScript numbers\<close>

text \<open>
  A number is NaN, one of the two infinities, or finite. Every finite double is a
  rational, so finite numbers are taken as rationals and \<open>+\<close> and \<open><\<close> are computed
  exactly. That is what the double arithmetic does whenever the operands and the result
  are integers below \<open>2 ^ 53\<close> in magnitude, which covers every integer \<open>size\<close> together
  with every array (an array has fewer than \<open>2 ^ 32\<close> elements): there \<open>i\<close> is a
  multiple of \<open>size\<close> that is either below \<open>length + size\<close> or, for \<open>size \<le> 0\<close>, stays
  at most \<open>0\<close> also after rounding. Rounding at non-integer sizes is not modelled.
\<close>

datatype number = Finite rat | NaN | PosInfinity | NegInfinity

text \<open>An integer as a number, and the number of an array length.\<close>

definition number_of_int :: "int \<Rightarrow> number" where
  "number_of_int k = Finite (of_int k)"

definition number_of_length :: "'a list \<Rightarrow> number" where
  "number_of_length array = Finite (of_nat (length array))"

text \<open>\<open>x + y\<close> on numbers: NaN is absorbing and the two infinities add up to NaN.\<close>

fun number_add :: "number \<Rightarrow> number \<Rightarrow> number" where
  "number_add NaN y = NaN"
| "number_add x NaN = NaN"
| "number_add (Finite a) (Finite b) = Finite (a + b)"
| "number_add (Finite a) PosInfinity = PosInfinity"
| "number_add (Finite a) NegInfinity = NegInfinity"
| "number_add PosInfinity NegInfinity = NaN"
| "number_add PosInfinity y = PosInfinity"
| "number_add NegInfinity PosInfinity = NaN"
| "number_add NegInfinity y = NegInfinity"

text \<open>\<open>x < y\<close> on numbers: false as soon as one side is NaN.\<close>

fun number_less :: "number \<Rightarrow> number \<Rightarrow> bool" where
  "number_less NaN y = False"
| "number_less x NaN = False"
| "number_less (Finite a) (Finite b) = (a < b)"
| "number_less (Finite a) PosInfinity = True"
| "number_less (Finite a) NegInfinity = False"
| "number_less PosInfinity y = False"
| "number_less NegInfinity NegInfinity = False"
| "number_less NegInfinity y = True"

subsection \<open>Array.prototype.slice\<close>

text \<open>
  \<open>slice\<close> converts each argument with ToIntegerOrInfinity: NaN becomes \<open>0\<close>, an
  infinity stays, a finite number is truncated towards zero.
\<close>

datatype integer_or_infinity = Integer int | PlusInfinity | MinusInfinity

fun to_integer_or_infinity :: "number \<Rightarrow> integer_or_infinity" where
  "to_integer_or_infinity NaN = Integer 0"
| "to_integer_or_infinity PosInfinity = PlusInfinity"
| "to_integer_or_infinity NegInfinity = MinusInfinity"
| "to_integer_or_infinity (Finite a) = Integer (if 0 \<le> a then \<lfloor>a\<rfloor> else \<lceil>a\<rceil>)"

text \<open>
  A relative position becomes an index between \<open>0\<close> and the length: a negative one
  counts from the end, and both are clamped.
\<close>

fun clamp_index :: "nat \<Rightarrow> integer_or_infinity \<Rightarrow> nat" where
  "clamp_index len MinusInfinity = 0"
| "clamp_index len PlusInfinity = len"
| "clamp_index len (Integer r) =
     (if r < 0 then nat (max (int len + r) 0) else nat (min r (int len)))"

text \<open>
  \<open>array.slice(start, end)\<close> copies the elements at the indices \<open>k \<le> idx < final\<close>,
  none when \<open>final \<le> k\<close>. The second argument is written \<open>stop\<close> here.
\<close>

definition slice :: "'a list \<Rightarrow> number \<Rightarrow> number \<Rightarrow> 'a list" where
  "slice array start stop =
     (let len = length array;
          k = clamp_index len (to_integer_or_infinity start);
          final = clamp_index len (to_integer_or_infinity stop)
      in take (final - k) (drop k array))"

subsection \<open>chunk\<close>

text \<open>
  The \<open>for\<close> loop, with its variables \<open>i\<close> and \<open>chunks\<close> as arguments; \<open>push\<close>
  appends at the end. The parameter \<open>size\<close> is written \<open>sz\<close>, as \<open>size\<close> is a
  constant of HOL.
\<close>

partial_function (option) chunk_loop ::
  "'a list \<Rightarrow> number \<Rightarrow> number \<Rightarrow> 'a list list \<Rightarrow> 'a list list option" where
  chunk_loop_code [code]: "chunk_loop array sz i chunks =
     (if number_less i (number_of_length array)
      then chunk_loop array sz (number_add i sz)
             (chunks @ [slice array i (number_add i sz)])
      else Some chunks)"

definition chunk :: "'a list \<Rightarrow> number \<Rightarrow> 'a list list option" where
  "chunk array sz =
     (if length array = 0 then Some [] else chunk_loop array sz (Finite 0) [])"

section \<open>Properties of the operations\<close>

subsection \<open>slice at natural positions\<close>

text \<open>
  At a start \<open>i \<ge> 0\<close> and an end \<open>i + k\<close> that are integers, \<open>slice\<close> is
  \<open>take k (drop i array)\<close>: the clamping to the length is what \<open>take\<close> and
  \<open>drop\<close> do at the end of a list.
\<close>

lemma to_integer_of_nat: "to_integer_or_infinity (Finite (of_nat i)) = Integer (int i)"
  by simp

lemma clamp_index_nat: "clamp_index len (Integer (int i)) = min i len"
  by simp

lemma slice_of_nat:
  "slice array (Finite (of_nat i)) (Finite (of_nat i + of_nat k)) = take k (drop i array)"
proof -
  have e: "Finite (of_nat i + of_nat k) = Finite (of_nat (i + k))"
    by simp
  have "slice array (Finite (of_nat i)) (Finite (of_nat (i + k)))
        = take (min (i + k) (length array) - min i (length array))
            (drop (min i (length array)) array)"
    unfolding slice_def Let_def to_integer_of_nat clamp_index_nat ..
  also have "\<dots> = take k (drop i array)"
  proof (cases "i \<le> length array")
    case True
    then have "min (i + k) (length array) - min i (length array)
               = min k (length (drop i array))"
      by auto
    then show ?thesis using True by (simp add: min_def)
  next
    case False
    then show ?thesis by simp
  qed
  finally show ?thesis unfolding e .
qed

subsection \<open>The number of iterations\<close>

text \<open>
  With \<open>k > 0\<close> the loop variable takes the values \<open>0, k, 2 * k, \<dots>\<close> below the
  length \<open>n\<close>; there are \<open>(n + k - 1) div k\<close> of them, which is \<open>n / k\<close> rounded up.
\<close>

lemma less_count_iff:
  fixes k :: nat
  assumes "0 < k"
  shows "j < (n + k - 1) div k \<longleftrightarrow> j * k < n"
proof -
  have "j < (n + k - 1) div k \<longleftrightarrow> Suc j \<le> (n + k - 1) div k" by auto
  also have "\<dots> \<longleftrightarrow> Suc j * k \<le> n + k - 1"
    using assms by (simp only: less_eq_div_iff_mult_less_eq)
  also have "\<dots> \<longleftrightarrow> j * k < n" using assms by auto
  finally show ?thesis .
qed

lemma count_ceiling:
  fixes k :: nat
  assumes "0 < k"
  shows "int ((n + k - 1) div k) = \<lceil>rat_of_nat n / rat_of_nat k\<rceil>"
proof -
  let ?m = "(n + k - 1) div k"
  have up: "n \<le> ?m * k"
    using less_count_iff [OF assms, of ?m n] by simp
  have lo: "?m * k < n + k"
  proof (cases ?m)
    case 0
    with assms show ?thesis by simp
  next
    case (Suc m')
    then have "m' < ?m" by simp
    then have "m' * k < n" using less_count_iff [OF assms, of m' n] by simp
    with Suc show ?thesis by simp
  qed
  from assms have kp: "(0::rat) < of_nat k" by simp
  have "rat_of_nat n \<le> of_nat (?m * k)" using up by (simp only: of_nat_le_iff)
  then have a: "rat_of_nat n / of_nat k \<le> of_int (int ?m)"
    using kp by (simp add: pos_divide_le_eq)
  have "rat_of_nat (?m * k) < of_nat (n + k)" using lo by (simp only: of_nat_less_iff)
  then have "(rat_of_nat ?m - 1) * of_nat k < of_nat n"
    by (simp add: algebra_simps)
  then have "rat_of_nat ?m - 1 < of_nat n / of_nat k"
    using kp by (simp only: pos_less_divide_eq)
  then have b: "of_int (int ?m) - 1 < rat_of_nat n / of_nat k"
    by simp
  show ?thesis by (rule sym) (rule ceiling_unique [OF b a])
qed

lemma count_div_mod:
  fixes k :: nat
  assumes "0 < k"
  shows "(n + k - 1) div k = (if n mod k = 0 then n div k else Suc (n div k))"
proof -
  define a where "a = k * (n div k)"
  have n: "n = a + n mod k" by (simp add: a_def)
  have r: "n mod k < k" using assms by simp
  show ?thesis
  proof (cases "n mod k = 0")
    case True
    have "(n + k - 1) div k = n div k"
    proof (rule div_nat_eqI)
      show "k * (n div k) \<le> n + k - 1" using n True assms unfolding a_def by linarith
      show "n + k - 1 < k * Suc (n div k)"
        using n True assms unfolding a_def mult_Suc_right by linarith
    qed
    with True show ?thesis by simp
  next
    case False
    have "(n + k - 1) div k = Suc (n div k)"
    proof (rule div_nat_eqI)
      show "k * Suc (n div k) \<le> n + k - 1"
        using n False assms unfolding a_def mult_Suc_right by linarith
      show "n + k - 1 < k * Suc (Suc (n div k))"
        using n r assms unfolding a_def mult_Suc_right by linarith
    qed
    with False show ?thesis by simp
  qed
qed

subsection \<open>The loop at a positive integer size\<close>

text \<open>
  Started at the \<open>j\<close>-th multiple of \<open>k\<close>, the loop ends and appends the slices
  of length \<open>k\<close> that begin at the remaining multiples. The induction is on the number
  of iterations left.
\<close>

lemma chunk_loop_closed:
  fixes k :: nat
  assumes "0 < k" and "j \<le> (length array + k - 1) div k"
  shows "chunk_loop array (Finite (of_nat k)) (Finite (of_nat (j * k))) acc
         = Some (acc @ map (\<lambda>j. take k (drop (j * k) array))
                        [j..<(length array + k - 1) div k])"
  using assms(2)
proof (induction "(length array + k - 1) div k - j" arbitrary: j acc)
  case 0
  then have j: "j = (length array + k - 1) div k" by simp
  then have "\<not> j * k < length array"
    using less_count_iff [OF assms(1), of j "length array"] by simp
  then have "\<not> number_less (Finite (of_nat (j * k))) (number_of_length array)"
    by (simp add: number_of_length_def del: of_nat_mult)
  then show ?case
    by (subst chunk_loop.simps) (simp add: j del: of_nat_mult)
next
  case (Suc d)
  then have lt: "j < (length array + k - 1) div k" by simp
  then have "j * k < length array"
    using less_count_iff [OF assms(1), of j "length array"] by simp
  then have c: "number_less (Finite (of_nat (j * k))) (number_of_length array)"
    by (simp add: number_of_length_def del: of_nat_mult)
  have a: "number_add (Finite (of_nat (j * k))) (Finite (of_nat k))
           = Finite (of_nat (Suc j * k))"
    by (simp add: algebra_simps)
  have s: "slice array (Finite (of_nat (j * k))) (Finite (of_nat (Suc j * k)))
           = take k (drop (j * k) array)"
    using slice_of_nat [of array "j * k" k] by (simp add: algebra_simps)
  have "chunk_loop array (Finite (of_nat k)) (Finite (of_nat (j * k))) acc
        = chunk_loop array (Finite (of_nat k)) (Finite (of_nat (Suc j * k)))
            (acc @ [take k (drop (j * k) array)])"
    by (subst chunk_loop.simps) (simp only: c a s if_True)
  also have "\<dots> = Some ((acc @ [take k (drop (j * k) array)])
                         @ map (\<lambda>j. take k (drop (j * k) array))
                             [Suc j..<(length array + k - 1) div k])"
    using Suc.hyps(2) lt by (intro Suc.hyps(1)) auto
  also have "\<dots> = Some (acc @ map (\<lambda>j. take k (drop (j * k) array))
                                [j..<(length array + k - 1) div k])"
    using lt by (simp add: upt_conv_Cons)
  finally show ?case .
qed

lemma number_of_int_pos: "0 < sz \<Longrightarrow> number_of_int sz = Finite (of_nat (nat sz))"
  by (simp add: number_of_int_def)

lemma chunk_closed:
  assumes "0 < sz"
  shows "chunk array (number_of_int sz)
         = Some (map (\<lambda>j. take (nat sz) (drop (j * nat sz) array))
                   [0..<(length array + nat sz - 1) div nat sz])"
proof (cases "array = []")
  case True
  from assms have "(nat sz - 1) div nat sz = 0" by simp
  with True show ?thesis by (simp add: chunk_def)
next
  case False
  from assms have k: "0 < nat sz" by simp
  have "chunk array (number_of_int sz)
        = chunk_loop array (Finite (of_nat (nat sz))) (Finite (of_nat (0 * nat sz))) []"
    using False assms by (simp add: chunk_def number_of_int_pos)
  also have "\<dots> = Some ([] @ map (\<lambda>j. take (nat sz) (drop (j * nat sz) array))
                   [0..<(length array + nat sz - 1) div nat sz])"
    by (rule chunk_loop_closed [OF k]) simp
  finally show ?thesis by simp
qed

lemma chunk_closed_length:
  assumes "0 < sz"
  shows "\<exists>chunks. chunk array (number_of_int sz) = Some chunks \<and>
           length chunks = (length array + nat sz - 1) div nat sz \<and>
           (\<forall>j<length chunks. chunks ! j = take (nat sz) (drop (j * nat sz) array))"
  by (simp add: chunk_closed [OF assms])

lemma concat_slices:
  "concat (map (\<lambda>j. take k (drop (j * k) xs)) [0..<m]) = take (m * k) xs"
proof (induction m)
  case 0
  show ?case by simp
next
  case (Suc m)
  have "take (m * k) xs @ take k (drop (m * k) xs) = take (m * k + k) xs"
    by (simp add: take_add)
  with Suc show ?case by (simp add: add.commute)
qed

lemma take_drop_positions:
  "take k (drop i xs) = map ((!) xs) [i..<min (i + k) (length xs)]"
proof (cases "i \<le> length xs")
  case True
  show ?thesis
  proof (rule nth_equalityI)
    show "length (take k (drop i xs)) = length (map ((!) xs) [i..<min (i + k) (length xs)])"
      using True by auto
  next
    fix t assume "t < length (take k (drop i xs))"
    then show "take k (drop i xs) ! t = map ((!) xs) [i..<min (i + k) (length xs)] ! t"
      using True by auto
  qed
next
  case False
  then show ?thesis by simp
qed

lemma last_slice_length:
  fixes k :: nat
  assumes "0 < k" and "xs \<noteq> []"
  shows "length (take k (drop (((length xs + k - 1) div k - 1) * k) xs))
         = (if length xs mod k = 0 then k else length xs mod k)"
proof -
  let ?n = "length xs"
  have n: "?n = k * (?n div k) + ?n mod k" by simp
  have r: "?n mod k < k" using assms by simp
  from assms(2) have np: "0 < ?n" by simp
  show ?thesis
  proof (cases "?n mod k = 0")
    case True
    then have m: "(?n + k - 1) div k = ?n div k"
      using count_div_mod [OF assms(1), of ?n] by simp
    from True np assms(1) have "0 < ?n div k"
      by (metis n add.right_neutral mult_0_right neq0_conv)
    then have "(?n div k - 1) * k + k = ?n"
      using True n by (metis Suc_diff_1 add.commute add.right_neutral mult.commute mult_Suc)
    then have "?n - (?n div k - 1) * k = k" by linarith
    then have "length (take k (drop ((?n div k - 1) * k) xs)) = k" by simp
    with True show ?thesis unfolding m by simp
  next
    case False
    then have m: "(?n + k - 1) div k = Suc (?n div k)"
      using count_div_mod [OF assms(1), of ?n] by simp
    have "?n - ?n div k * k = ?n mod k"
      by (simp add: minus_div_mult_eq_mod)
    with r have "length (take k (drop (?n div k * k) xs)) = ?n mod k" by simp
    with False show ?thesis unfolding m by simp
  qed
qed

subsection \<open>The loop at a size that is not positive\<close>

text \<open>
  On a non-empty array, with \<open>size \<le> 0\<close> the loop variable starts at \<open>0\<close> and never
  grows, so the test \<open>i < array.length\<close> holds at every iteration: no run of the loop
  returns. The proof is by induction on the fixed point that defines the loop.
\<close>

lemma chunk_loop_diverges:
  assumes "chunk_loop array sz i acc = Some y"
  shows "\<not> (\<exists>q r. sz = Finite q \<and> q \<le> 0 \<and> i = Finite r \<and> r \<le> 0 \<and> array \<noteq> [])"
proof (rule chunk_loop.raw_induct
    [where P = "\<lambda>array sz i acc y.
       \<not> (\<exists>q r. sz = Finite q \<and> q \<le> 0 \<and> i = Finite r \<and> r \<le> 0 \<and> array \<noteq> [])",
     OF _ assms])
  fix f :: "'a list \<Rightarrow> number \<Rightarrow> number \<Rightarrow> 'a list list \<Rightarrow> 'a list list option"
  fix array :: "'a list" and sz i chunks y
  assume IH: "\<And>array sz i chunks y. f array sz i chunks = Some y \<Longrightarrow>
     \<not> (\<exists>q r. sz = Finite q \<and> q \<le> 0 \<and> i = Finite r \<and> r \<le> 0 \<and> array \<noteq> [])"
  assume step: "(if number_less i (number_of_length array)
      then f array sz (number_add i sz) (chunks @ [slice array i (number_add i sz)])
      else Some chunks) = Some y"
  show "\<not> (\<exists>q r. sz = Finite q \<and> q \<le> 0 \<and> i = Finite r \<and> r \<le> 0 \<and> array \<noteq> [])"
  proof
    assume "\<exists>q r. sz = Finite q \<and> q \<le> 0 \<and> i = Finite r \<and> r \<le> 0 \<and> array \<noteq> []"
    then obtain q r where h: "sz = Finite q" "q \<le> 0" "i = Finite r" "r \<le> 0" "array \<noteq> []"
      by blast
    from h(5) have "(0::rat) < of_nat (length array)" by simp
    with h(4) have "r < of_nat (length array)" by linarith
    then have "number_less i (number_of_length array)"
      by (simp add: number_of_length_def h(3))
    with step have "f array sz (number_add i sz)
            (chunks @ [slice array i (number_add i sz)]) = Some y"
      by simp
    from IH [OF this] h show False by simp
  qed
qed

subsection \<open>Concrete calls\<close>

text \<open>
  The calls \<open>chunk([], 3)\<close>, \<open>chunk([1,2,3,4,5], 2)\<close>, \<open>chunk([1,2,3,4], 2)\<close>,
  \<open>chunk(["a","b","c"], 1)\<close> and \<open>chunk([1,2,3], 10)\<close>, evaluated.
\<close>

lemma chunk_scenario_empty: "chunk ([] :: nat list) (number_of_int 3) = Some []"
  by (simp add: chunk_def)

lemma chunk_scenario_remainder:
  "chunk [1, 2, 3, 4, 5 :: nat] (number_of_int 2) = Some [[1, 2], [3, 4], [5]]"
  by code_simp

lemma chunk_scenario_exact: "chunk [1, 2, 3, 4 :: nat] (number_of_int 2) = Some [[1, 2], [3, 4]]"
  by code_simp

lemma chunk_scenario_singletons:
  "chunk [''a'', ''b'', ''c''] (number_of_int 1) = Some [[''a''], [''b''], [''c'']]"
  by code_simp

lemma chunk_scenario_large_size: "chunk [1, 2, 3 :: nat] (number_of_int 10) = Some [[1, 2, 3]]"
  by code_simp

text \<open>
  Two sizes that are numbers but not integers: with NaN the first slice is
  \<open>slice(0, NaN)\<close>, which is empty, and the loop stops as \<open>NaN < length\<close> is false;
  with \<open>+Infinity\<close> the first slice is the whole array.
\<close>

lemma chunk_NaN: "array \<noteq> [] \<Longrightarrow> chunk array NaN = Some [[]]"
  by (simp add: chunk_def chunk_loop.simps number_of_length_def slice_def)

lemma chunk_PosInfinity: "array \<noteq> [] \<Longrightarrow> chunk array PosInfinity = Some [array]"
  by (simp add: chunk_def chunk_loop.simps number_of_length_def slice_def)

section \<open>Verified properties of chunk\<close>

text \<open>
  In the theorems below a positive integer size is \<open>number_of_int sz\<close> with \<open>0 < sz\<close>, and
  \<open>chunk array (number_of_int sz) = Some chunks\<close> says that the call returns \<open>chunks\<close>.
\<close>

text \<open>
  C1: for a non-empty array of length \<open>n\<close> and a positive integer size, the call returns
  chunks such that there is a chunk \<open>k\<close> exactly for the \<open>k = 0, 1, 2, \<dots>\<close> with
  \<open>k * size < n\<close>, and chunk \<open>k\<close> holds exactly the elements of the array at the
  positions \<open>k * size \<le> p < min ((k + 1) * size) n\<close>, in their order.
\<close>

theorem chunk_positions:
  assumes "array \<noteq> []" and "0 < sz"
  shows "\<exists>chunks. chunk array (number_of_int sz) = Some chunks \<and>
           (\<forall>k. (k < length chunks) = (k * nat sz < length array)) \<and>
           (\<forall>k. k * nat sz < length array \<longrightarrow>
              chunks ! k = map ((!) array)
                [k * nat sz ..< min ((k + 1) * nat sz) (length array)])"
proof -
  from assms(2) have sz: "0 < nat sz" by simp
  from chunk_closed_length [OF assms(2)] obtain chunks where
    c: "chunk array (number_of_int sz) = Some chunks" and
    l: "length chunks = (length array + nat sz - 1) div nat sz" and
    p: "\<forall>j<length chunks. chunks ! j = take (nat sz) (drop (j * nat sz) array)"
    by blast
  have which: "(k < length chunks) = (k * nat sz < length array)" for k
    unfolding l by (rule less_count_iff [OF sz])
  have "chunks ! k = map ((!) array) [k * nat sz ..< min ((k + 1) * nat sz) (length array)]"
    if "k * nat sz < length array" for k
  proof -
    from that have "k < length chunks" by (simp only: which)
    then have "chunks ! k = take (nat sz) (drop (k * nat sz) array)"
      using p by blast
    also have "\<dots> = map ((!) array) [k * nat sz ..< min (k * nat sz + nat sz) (length array)]"
      by (rule take_drop_positions)
    finally show ?thesis by (simp add: add.commute)
  qed
  with c which show ?thesis by blast
qed

theorem chunk_positions_witness:
  "[1, 2, 3, 4, 5 :: nat] \<noteq> [] \<and> (0::int) < 2 \<and>
   (\<exists>chunks. chunk [1, 2, 3, 4, 5 :: nat] (number_of_int 2) = Some chunks \<and>
      (\<forall>k. (k < length chunks) = (k * nat 2 < length [1, 2, 3, 4, 5 :: nat])) \<and>
      (\<forall>k. k * nat 2 < length [1, 2, 3, 4, 5 :: nat] \<longrightarrow>
         chunks ! k = map ((!) [1, 2, 3, 4, 5])
           [k * nat 2 ..< min ((k + 1) * nat 2) (length [1, 2, 3, 4, 5 :: nat])]))"
  using chunk_positions [where array = "[1, 2, 3, 4, 5 :: nat]" and sz = 2] by simp

text \<open>
  C2: for every array and every positive integer size, the concatenation of the
  returned chunks, in order, is the array itself.
\<close>

theorem chunk_concat:
  assumes "0 < sz"
  shows "\<exists>chunks. chunk array (number_of_int sz) = Some chunks \<and> concat chunks = array"
proof -
  let ?k = "nat sz"
  let ?m = "(length array + ?k - 1) div ?k"
  from assms have k: "0 < ?k" by simp
  have "length array \<le> ?m * ?k"
    using less_count_iff [OF k, of ?m "length array"] by simp
  then have "take (?m * ?k) array = array" by simp
  then show ?thesis
    by (simp add: chunk_closed [OF assms] concat_slices)
qed

theorem chunk_concat_witness:
  "(0::int) < 3 \<and>
   (\<exists>chunks. chunk [1, 2, 3, 4, 5, 6, 7 :: nat] (number_of_int 3) = Some chunks \<and>
      concat chunks = [1, 2, 3, 4, 5, 6, 7])"
  using chunk_concat [where array = "[1, 2, 3, 4, 5, 6, 7 :: nat]" and sz = 3] by simp

text \<open>
  C3: for a non-empty array of length \<open>n\<close> and a positive integer size, the number of
  returned chunks is \<open>n / size\<close> rounded up.
\<close>

theorem chunk_count:
  assumes "array \<noteq> []" and "0 < sz"
  shows "\<exists>chunks. chunk array (number_of_int sz) = Some chunks \<and>
           int (length chunks) = \<lceil>rat_of_nat (length array) / rat_of_int sz\<rceil>"
proof -
  from assms(2) have k: "0 < nat sz" by simp
  from assms(2) have e: "rat_of_int sz = rat_of_nat (nat sz)" by simp
  from chunk_closed_length [OF assms(2)] obtain chunks where
    c: "chunk array (number_of_int sz) = Some chunks" and
    l: "length chunks = (length array + nat sz - 1) div nat sz"
    by blast
  have "int (length chunks) = \<lceil>rat_of_nat (length array) / rat_of_nat (nat sz)\<rceil>"
    unfolding l by (rule count_ceiling [OF k])
  with c show ?thesis unfolding e by blast
qed

theorem chunk_count_witness:
  "[1, 2, 3, 4, 5 :: nat] \<noteq> [] \<and> (0::int) < 2 \<and>
   (\<exists>chunks. chunk [1, 2, 3, 4, 5 :: nat] (number_of_int 2) = Some chunks \<and>
      int (length chunks) = 3)"
proof -
  have "\<lceil>5 / 2 :: rat\<rceil> = 3"
    by (rule ceiling_unique) simp_all
  with chunk_count [where array = "[1, 2, 3, 4, 5 :: nat]" and sz = 2] show ?thesis
    by simp
qed

text \<open>
  C4: for a non-empty array of length \<open>n\<close> and a positive integer size, every chunk
  but the last has exactly \<open>size\<close> elements; the last has \<open>n - size * floor (n / size)\<close>
  elements when that remainder is not zero and \<open>size\<close> elements otherwise, hence between
  \<open>1\<close> and \<open>size\<close>.
\<close>

theorem chunk_lengths:
  assumes "array \<noteq> []" and "0 < sz"
  shows "\<exists>chunks. chunk array (number_of_int sz) = Some chunks \<and> chunks \<noteq> [] \<and>
           (\<forall>k. k + 1 < length chunks \<longrightarrow> int (length (chunks ! k)) = sz) \<and>
           int (length (last chunks))
             = (let r = int (length array)
                        - sz * \<lfloor>rat_of_nat (length array) / rat_of_int sz\<rfloor>
                in if r \<noteq> 0 then r else sz) \<and>
           1 \<le> length (last chunks) \<and> int (length (last chunks)) \<le> sz"
proof -
  let ?k = "nat sz"
  let ?n = "length array"
  let ?m = "(?n + ?k - 1) div ?k"
  from assms(2) have k: "0 < ?k" by simp
  from chunk_closed_length [OF assms(2)] obtain chunks where
    c: "chunk array (number_of_int sz) = Some chunks" and
    l: "length chunks = ?m" and
    p: "\<forall>j<length chunks. chunks ! j = take ?k (drop (j * ?k) array)"
    by blast
  from assms(1) have "0 * ?k < ?n" by simp
  then have mp: "0 < ?m" using less_count_iff [OF k, of 0 ?n] by simp
  with l have ne: "chunks \<noteq> []" by auto
  have full: "int (length (chunks ! j)) = sz" if "j + 1 < length chunks" for j
  proof -
    from that l have "(j + 1) * ?k < ?n"
      using less_count_iff [OF k, of "j + 1" ?n] by simp
    then have "?k \<le> ?n - j * ?k" by simp
    moreover have "chunks ! j = take ?k (drop (j * ?k) array)"
      using p that by simp
    ultimately show ?thesis using assms(2) by simp
  qed
  have "last chunks = chunks ! (?m - 1)"
    using ne l by (simp add: last_conv_nth)
  also have "\<dots> = take ?k (drop ((?m - 1) * ?k) array)"
    using p l mp by simp
  finally have "length (last chunks) = (if ?n mod ?k = 0 then ?k else ?n mod ?k)"
    using last_slice_length [OF k assms(1)] by simp
  moreover have "int (?n mod ?k) = int ?n mod sz" "int ?k = sz"
    using assms(2) by (simp_all add: zmod_int)
  ultimately have ll: "int (length (last chunks))
                 = (if int ?n mod sz = 0 then sz else int ?n mod sz)"
    by (cases "?n mod ?k = 0") auto
  have "\<lfloor>rat_of_nat ?n / rat_of_int sz\<rfloor> = int ?n div sz"
    using floor_divide_of_int_eq [of "int ?n" sz, where ?'a = rat] by simp
  then have r: "int ?n - sz * \<lfloor>rat_of_nat ?n / rat_of_int sz\<rfloor> = int ?n mod sz"
    by (simp add: minus_mult_div_eq_mod)
  have last_eq: "int (length (last chunks))
             = (let r = int ?n - sz * \<lfloor>rat_of_nat ?n / rat_of_int sz\<rfloor>
                in if r \<noteq> 0 then r else sz)"
    unfolding r Let_def using ll by simp
  have b: "int ?n mod sz < sz" "0 \<le> int ?n mod sz" using assms(2) by simp_all
  have lo: "1 \<le> length (last chunks)" using ll b assms(2)
    by (cases "int ?n mod sz = 0") simp_all
  have hi: "int (length (last chunks)) \<le> sz" using ll b
    by (cases "int ?n mod sz = 0") simp_all
  from c ne full last_eq lo hi show ?thesis by blast
qed

theorem chunk_lengths_witness:
  "[1, 2, 3, 4, 5 :: nat] \<noteq> [] \<and> (0::int) < 2 \<and>
   (\<exists>chunks. chunk [1, 2, 3, 4, 5 :: nat] (number_of_int 2) = Some chunks \<and> chunks \<noteq> [] \<and>
      (\<forall>k. k + 1 < length chunks \<longrightarrow> int (length (chunks ! k)) = 2) \<and>
      int (length (last chunks)) = 1 \<and>
      1 \<le> length (last chunks) \<and> int (length (last chunks)) \<le> 2)"
proof -
  have "\<lfloor>5 / 2 :: rat\<rfloor> = 2"
    by (rule floor_unique) simp_all
  with chunk_lengths [where array = "[1, 2, 3, 4, 5 :: nat]" and sz = 2] show ?thesis
    by simp
qed

text \<open>
  C5: for every positive integer size, the call on the empty array returns the empty
  sequence of chunks, not a sequence that holds one empty chunk.
\<close>

theorem chunk_empty: "0 < sz \<Longrightarrow> chunk [] (number_of_int sz) = Some []"
  by (simp add: chunk_def)

theorem chunk_empty_witness: "(0::int) < 3 \<and> chunk ([] :: nat list) (number_of_int 3) = Some []"
  using chunk_empty [where sz = 3 and 'a = nat] by simp

text \<open>
  C6, for what the code does: the function does not validate \<open>size\<close> and raises
  nothing. For every finite \<open>size \<le> 0\<close>, the call on the empty array returns the empty
  sequence, and the call on a non-empty array never returns, so no partial or degenerate
  result comes back.
\<close>

theorem chunk_nonpositive_size:
  assumes "q \<le> 0"
  shows "chunk array (Finite q) = (if array = [] then Some [] else None)"
proof (cases "array = []")
  case True
  then show ?thesis by (simp add: chunk_def)
next
  case False
  have "chunk_loop array (Finite q) (Finite 0) [] = None"
  proof (cases "chunk_loop array (Finite q) (Finite 0) []")
    case None
    then show ?thesis .
  next
    case (Some y)
    from chunk_loop_diverges [OF this] assms False show ?thesis by simp
  qed
  with False show ?thesis by (simp add: chunk_def)
qed

theorem chunk_nonpositive_size_witness:
  "(- 1 :: rat) \<le> 0 \<and> chunk [1, 2, 3 :: nat] (Finite (- 1)) = None"
  using chunk_nonpositive_size [where array = "[1, 2, 3 :: nat]" and q = "- 1"] by simp

text \<open>
  C6, as stated, says that a call with a size that is not a positive integer fails with
  an error. At size \<open>0\<close>, which is not positive, the call on the empty array returns
  normally with \<open>[]\<close>, and the call on \<open>[1]\<close> does not fail either: it never returns.
\<close>

theorem chunk_invalid_size_counterexample:
  "\<not> 0 < (0::int) \<and> chunk ([] :: nat list) (number_of_int 0) = Some [] \<and>
   chunk [1 :: nat] (number_of_int 0) = None"
proof -
  have "chunk_loop [1 :: nat] (Finite 0) (Finite 0) [] = None"
  proof (cases "chunk_loop [1 :: nat] (Finite 0) (Finite 0) []")
    case None
    then show ?thesis .
  next
    case (Some y)
    from chunk_loop_diverges [OF this] show ?thesis by simp
  qed
  then show ?thesis by (simp add: chunk_def number_of_int_def)
qed

text \<open>
  C7: for every array and every positive integer size, the call terminates and returns
  a list of chunks. The function has no \<open>throw\<close>, calls nothing but \<open>slice\<close> and
  \<open>push\<close> on its own local array, and assigns to nothing but its locals.
\<close>

theorem chunk_returns:
  assumes "0 < sz"
  shows "\<exists>chunks. chunk array (number_of_int sz) = Some chunks"
  by (simp add: chunk_closed [OF assms])

theorem chunk_returns_witness:
  "(0::int) < 10 \<and> (\<exists>chunks. chunk [1, 2, 3 :: nat] (number_of_int 10) = Some chunks)"
  using chunk_returns [where array = "[1, 2, 3 :: nat]" and sz = 10] by simp

text \<open>
  C9: on the empty array the call returns the empty sequence for every size whatsoever
  (zero, negative, fractional, NaN or infinite): the test of the length comes before any
  use of \<open>size\<close>.
\<close>

theorem chunk_empty_any_size: "chunk [] sz = Some []"
  by (simp add: chunk_def)

text \<open>
  C10: for every array and every positive integer size, no returned chunk is empty.
\<close>

theorem chunk_no_empty_chunk:
  assumes "0 < sz"
  shows "\<exists>chunks. chunk array (number_of_int sz) = Some chunks \<and>
           (\<forall>c\<in>set chunks. 1 \<le> length c)"
proof -
  let ?k = "nat sz"
  let ?n = "length array"
  from assms have k: "0 < ?k" by simp
  from chunk_closed_length [OF assms] obtain chunks where
    c: "chunk array (number_of_int sz) = Some chunks" and
    l: "length chunks = (?n + ?k - 1) div ?k" and
    p: "\<forall>j<length chunks. chunks ! j = take ?k (drop (j * ?k) array)"
    by blast
  have "1 \<le> length x" if "x \<in> set chunks" for x
  proof -
    from that obtain j where j: "j < length chunks" "x = chunks ! j"
      by (auto simp: in_set_conv_nth)
    with l have lt: "j * ?k < ?n" using less_count_iff [OF k, of j ?n] by simp
    from j p have "x = take ?k (drop (j * ?k) array)" by simp
    then have "length x = min ?k (?n - j * ?k)" by simp
    with lt k show ?thesis by linarith
  qed
  with c show ?thesis by blast
qed

theorem chunk_no_empty_chunk_witness:
  "(0::int) < 1 \<and>
   (\<exists>chunks. chunk [''a'', ''b'', ''c''] (number_of_int 1) = Some chunks \<and>
      (\<forall>c\<in>set chunks. 1 \<le> length c))"
  using chunk_no_empty_chunk [where array = "[''a'', ''b'', ''c'']" and sz = 1] by simp

end
